theory Spec2Isabelle
  imports Main "HOL-Library.Word"
begin

unbundle bit_operations_syntax

section \<open>Python strings\<close>

text \<open>
  A Python \<open>str\<close> is a sequence of Unicode code points and \<open>len\<close> counts code points.
  A string is therefore a list of code points (natural numbers), not a list of bytes:
  the glyphs of the templates (chart, calendar, bullet, ellipsis) are one element each.
  \<open>ascii\<close> embeds an ASCII literal.

  The source holds string literals in single quotes that span a line break (lines
  36 to 38, 179 to 180, 337 to 338 and 390 to 397). The models of the functions read
  every literal as exactly the characters between its quotes, so that such a literal
  contains the line feed and the literal \<open>""\<close> is the empty string: they say what the
  text of each function computes. Python itself rejects a literal that spans a line
  break when it compiles the module; the public operation, at the end of the
  definitions, is modelled as a caller meets it, through the loading of the module.
\<close>

type_synonym ustring = "nat list"

definition ascii :: "string \<Rightarrow> ustring" where
  "ascii s = map of_char s"

definition LF :: nat where "LF = 10"
definition chart_glyph :: nat where "chart_glyph = 128200"
definition calendar_glyph :: nat where "calendar_glyph = 128197"
definition bullet_glyph :: nat where "bullet_glyph = 8226"
definition ellipsis_glyph :: nat where "ellipsis_glyph = 8230"

text \<open>The exceptions that the modelled code can raise.\<close>

datatype exn =
    ReError | ValueError | UnicodeEncodeError | RequestException | JSONDecodeError
  | RecursionError | SyntaxError

text \<open>\<open>str.isspace\<close> of one code point: the characters \<open>str.strip()\<close> removes.\<close>

definition is_space :: "nat \<Rightarrow> bool" where
  "is_space c = ((9 \<le> c \<and> c \<le> 13) \<or> (28 \<le> c \<and> c \<le> 32) \<or> c = 133 \<or> c = 160
     \<or> c = 5760 \<or> (8192 \<le> c \<and> c \<le> 8202) \<or> c = 8232 \<or> c = 8233 \<or> c = 8239
     \<or> c = 8287 \<or> c = 12288)"

definition lstrip_chars :: "(nat \<Rightarrow> bool) \<Rightarrow> ustring \<Rightarrow> ustring" where
  "lstrip_chars p s = dropWhile p s"

definition rstrip_chars :: "(nat \<Rightarrow> bool) \<Rightarrow> ustring \<Rightarrow> ustring" where
  "rstrip_chars p s = rev (dropWhile p (rev s))"

definition py_rstrip :: "ustring \<Rightarrow> ustring" where
  "py_rstrip s = rstrip_chars is_space s"

definition py_strip :: "ustring \<Rightarrow> ustring" where
  "py_strip s = lstrip_chars is_space (rstrip_chars is_space s)"

text \<open>\<open>sep.join(xs)\<close>.\<close>

fun py_join :: "ustring \<Rightarrow> ustring list \<Rightarrow> ustring" where
  "py_join sep [] = []"
| "py_join sep [x] = x"
| "py_join sep (x # y # ys) = x @ sep @ py_join sep (y # ys)"

text \<open>\<open>needle in haystack\<close> on strings.\<close>

fun starts_with :: "ustring \<Rightarrow> ustring \<Rightarrow> bool" where
  "starts_with [] s = True"
| "starts_with (p # ps) [] = False"
| "starts_with (p # ps) (c # cs) = (p = c \<and> starts_with ps cs)"

fun contains :: "ustring \<Rightarrow> ustring \<Rightarrow> bool" where
  "contains needle [] = (needle = [])"
| "contains needle (c # cs) = (starts_with needle (c # cs) \<or> contains needle cs)"

section \<open>Bullet truncation\<close>

text \<open>
  \<open>_truncate_bullets_refined(bullets, max_chars)\<close>. The \<open>for\<close> loop with its \<open>break\<close>
  is \<open>truncate_loop\<close>: the bullets still to visit, the budget and \<open>current_length\<close> go
  in, the bullets appended to \<open>result\<close> from here on come out. A bullet that fits is
  appended and the loop goes on; the first one that does not fit ends the loop, after a
  shortened copy is appended when more than 30 characters are left.
\<close>

definition dots :: ustring where
  "dots = ascii ''...''"

fun truncate_loop :: "ustring list \<Rightarrow> int \<Rightarrow> int \<Rightarrow> ustring list" where
  "truncate_loop [] max_chars current_length = []"
| "truncate_loop (bullet # rest) max_chars current_length =
     (let bullet_length = int (length bullet) + 1 in
      if current_length + bullet_length \<le> max_chars
      then bullet # truncate_loop rest max_chars (current_length + bullet_length)
      else (let available_chars = max_chars - current_length in
            if available_chars > 30
            then [py_rstrip (take (nat (available_chars - 3)) bullet) @ dots]
            else []))"

definition truncate_bullets_refined :: "ustring list \<Rightarrow> int \<Rightarrow> ustring list" where
  "truncate_bullets_refined bullets max_chars =
     (if max_chars \<le> 0 then []
      else (let result = truncate_loop bullets max_chars 0 in
            if length result < 3 \<and> bullets \<noteq> [] then take 3 bullets else result))"


section \<open>Splitting and replacing\<close>

text \<open>
  \<open>s.split(sep)\<close> with an explicit separator: an empty separator raises
  \<open>ValueError\<close>; otherwise the string is cut at every occurrence of \<open>sep\<close>, scanning
  from the left, and the pieces (possibly empty) are returned. \<open>split_scan\<close> carries
  the number of separator characters still to skip and the reversed current piece.
\<close>

fun split_scan :: "ustring \<Rightarrow> nat \<Rightarrow> ustring \<Rightarrow> ustring \<Rightarrow> ustring list" where
  "split_scan sep skip cur [] = [rev cur]"
| "split_scan sep (Suc skip) cur (c # cs) = split_scan sep skip cur cs"
| "split_scan sep 0 cur (c # cs) =
     (if starts_with sep (c # cs)
      then rev cur # split_scan sep (length sep - 1) [] cs
      else split_scan sep 0 (c # cur) cs)"

definition py_split :: "ustring \<Rightarrow> ustring \<Rightarrow> exn + ustring list" where
  "py_split sep s = (if sep = [] then Inl ValueError else Inr (split_scan sep 0 [] s))"

text \<open>\<open>s.replace(old, new)\<close> for a one-character \<open>old\<close>.\<close>

definition replace_char :: "nat \<Rightarrow> ustring \<Rightarrow> ustring \<Rightarrow> ustring" where
  "replace_char old new s = concat (map (\<lambda>c. if c = old then new else [c]) s)"

text \<open>Sequencing of steps that may raise: the first exception ends the block.\<close>

definition try_bind :: "exn + 'a \<Rightarrow> ('a \<Rightarrow> exn + 'b) \<Rightarrow> exn + 'b" where
  "try_bind r f = (case r of Inl e \<Rightarrow> Inl e | Inr v \<Rightarrow> f v)"

section \<open>Regular expressions\<close>

text \<open>
  \<open>re.sub(pattern, repl, string)\<close> belongs to the standard library. The functions below
  take it as a parameter \<open>sub\<close>, called with the pattern and the replacement exactly as
  the source writes them; it returns the new string or raises.

  \<open>re_sub_python\<close> is the part of \<open>re.sub\<close> that does not depend on the subject string:
  the pattern is compiled first, and a pattern whose first character is a repetition
  operator has nothing to repeat, which raises \<open>re.error\<close>. What a pattern that
  compiles does to the subject is left to \<open>matcher\<close>.
\<close>

type_synonym re_sub = "ustring \<Rightarrow> ustring \<Rightarrow> ustring \<Rightarrow> exn + ustring"

definition backslash :: nat where "backslash = 92"

definition nothing_to_repeat :: "ustring \<Rightarrow> bool" where
  "nothing_to_repeat pattern =
     (case pattern of [] \<Rightarrow> False | c # _ \<Rightarrow> c = 42 \<or> c = 43 \<or> c = 63)"

definition re_sub_python :: "re_sub \<Rightarrow> re_sub" where
  "re_sub_python matcher pattern repl s =
     (if nothing_to_repeat pattern then Inl ReError else matcher pattern repl s)"

text \<open>A matcher for subjects in which the pattern matches nowhere.\<close>

definition no_match :: re_sub where
  "no_match pattern repl s = Inr s"

section \<open>Bulletization\<close>

text \<open>
  \<open>_enhance_short_bullet\<close>. The dictionary is visited in insertion order, so it is an
  association list. \<open>str.lower\<close> follows the Unicode case tables and is the parameter
  \<open>lower\<close>; \<open>ascii_lower\<close> is what it does on ASCII text.
\<close>

definition enhancements :: "(ustring \<times> ustring) list" where
  "enhancements =
     [(ascii ''bitcoin'', ascii ''Bitcoin continues its market leadership with institutional interest''),
      (ascii ''ethereum'', ascii ''Ethereum shows network strength amid ongoing development''),
      (ascii ''market'', ascii ''Market dynamics reflect broader economic sentiment''),
      (ascii ''price'', ascii ''Price action indicates key technical levels''),
      (ascii ''trading'', ascii ''Trading volumes suggest increased market participation'')]"

fun enhance_loop :: "ustring \<Rightarrow> ustring \<Rightarrow> (ustring \<times> ustring) list \<Rightarrow> ustring option" where
  "enhance_loop bullet_lower bullet [] = None"
| "enhance_loop bullet_lower bullet ((key, enhancement) # rest) =
     (if contains key bullet_lower \<and> length bullet < 50 then Some enhancement
      else enhance_loop bullet_lower bullet rest)"

definition enhance_short_bullet :: "(ustring \<Rightarrow> ustring) \<Rightarrow> ustring \<Rightarrow> ustring" where
  "enhance_short_bullet lower bullet =
     (case enhance_loop (lower bullet) bullet enhancements of
        Some enhancement \<Rightarrow> enhancement
      | None \<Rightarrow> bullet)"

definition ascii_lower :: "ustring \<Rightarrow> ustring" where
  "ascii_lower s = map (\<lambda>c. if 65 \<le> c \<and> c \<le> 90 then c + 32 else c) s"

text \<open>\<open>_generate_comprehensive_bullets\<close>.\<close>

definition generate_comprehensive_bullets :: "ustring list" where
  "generate_comprehensive_bullets =
     [bullet_glyph # ascii '' Bitcoin maintains consolidation above key support levels with institutional accumulation patterns emerging'',
      bullet_glyph # ascii '' Ethereum demonstrates network resilience with increasing validator participation and Layer 2 adoption growth'',
      bullet_glyph # ascii '' Top altcoins including BNB, XRP, and SOL show divergent performance reflecting sector-specific developments'',
      bullet_glyph # ascii '' Market sentiment indicators suggest cautious optimism amid ongoing regulatory clarity initiatives'',
      bullet_glyph # ascii '' DeFi and AI token sectors attract renewed interest following recent technological breakthroughs'',
      bullet_glyph # ascii '' Technical analysis reveals critical support and resistance zones shaping near-term price trajectories'']"

text \<open>
  \<open>_convert_to_detailed_bullets\<close>. \<open>terminal\<close> is the character set of
  \<open>rstrip(".!?")\<close>. \<open>bullets_loop\<close> is the second \<open>for\<close> loop: a sentence that is
  empty after stripping is skipped, one under 60 characters goes through
  \<open>_enhance_short_bullet\<close>, and each is prefixed with the bullet glyph and a space.
  An exception anywhere in the body is answered with the comprehensive bullets.
\<close>

definition terminal :: "nat \<Rightarrow> bool" where
  "terminal c = (c = 46 \<or> c = 33 \<or> c = 63)"

fun bullets_loop :: "(ustring \<Rightarrow> ustring) \<Rightarrow> ustring list \<Rightarrow> ustring list" where
  "bullets_loop lower [] = []"
| "bullets_loop lower (sentence # rest) =
     (let sentence = py_strip (rstrip_chars terminal sentence) in
      if sentence = [] then bullets_loop lower rest
      else (let sentence = (if length sentence < 60 then enhance_short_bullet lower sentence
                            else sentence)
            in (bullet_glyph # 32 # sentence) # bullets_loop lower rest))"

definition ensure_4_to_6 :: "ustring list \<Rightarrow> ustring list" where
  "ensure_4_to_6 bullets =
     (if length bullets < 4 then generate_comprehensive_bullets
      else if length bullets > 6 then take 6 bullets
      else bullets)"

definition sentences_of :: "ustring \<Rightarrow> exn + ustring list" where
  "sentences_of content =
     (let temp = replace_char 63 (ascii ''?|'')
                   (replace_char 33 (ascii ''!|'')
                      (replace_char 46 (ascii ''.|'') content)) in
      try_bind (py_split (ascii ''|'') temp) (\<lambda>pieces.
        let raw_sentences = filter (\<lambda>s. s \<noteq> []) (map py_strip pieces) in
        Inr (filter (\<lambda>sentence. length sentence > 15) raw_sentences)))"

definition convert_body :: "re_sub \<Rightarrow> (ustring \<Rightarrow> ustring) \<Rightarrow> ustring \<Rightarrow> exn + ustring list" where
  "convert_body sub lower content =
     try_bind (sub (ascii ''(?:#w+s*)+$'') [] content) (\<lambda>content.
       let content = py_strip content in
       try_bind (sentences_of content) (\<lambda>sentences.
         let bullets = bullets_loop lower sentences in
         Inr (ensure_4_to_6 bullets)))"

definition convert_to_detailed_bullets :: "re_sub \<Rightarrow> (ustring \<Rightarrow> ustring) \<Rightarrow> ustring \<Rightarrow> ustring list" where
  "convert_to_detailed_bullets sub lower content =
     (case convert_body sub lower content of
        Inl e \<Rightarrow> generate_comprehensive_bullets
      | Inr bullets \<Rightarrow> bullets)"

section \<open>Extraction\<close>

text \<open>
  The parsed response body. A Python \<open>dict\<close> built by the JSON parser keeps its keys in
  insertion order, each key once: an object is an association list, \<open>in\<close> and indexing
  are \<open>map_of\<close>, \<open>values()\<close> is the list of second components.
\<close>

datatype json =
    JNull
  | JBool bool
  | JNum int
  | JStr ustring
  | JArr "json list"
  | JObj "(ustring \<times> json) list"

text \<open>
  The first part of \<open>_extract_content_simple\<close>: the shape
  \<open>data["choices"][0]["message"]["content"]\<close>, accepted when the content is a string
  that is not blank. \<open>None\<close> means that control falls through to the recursive search.
\<close>

definition standard_content :: "json \<Rightarrow> ustring option" where
  "standard_content data =
     (case data of
        JObj d \<Rightarrow>
          (case map_of d (ascii ''choices'') of
             Some (JArr (first # others)) \<Rightarrow>
               (case first of
                  JObj f \<Rightarrow>
                    (case map_of f (ascii ''message'') of
                       Some (JObj message) \<Rightarrow>
                         (case map_of message (ascii ''content'') of
                            Some (JStr content) \<Rightarrow>
                              (if py_strip content \<noteq> [] then Some (py_strip content) else None)
                          | _ \<Rightarrow> None)
                     | _ \<Rightarrow> None)
                | _ \<Rightarrow> None)
           | _ \<Rightarrow> None)
      | _ \<Rightarrow> None)"

text \<open>
  The nested \<open>find_content\<close>. It calls itself once for every level of nesting, and the
  interpreter allows only so many nested calls: \<open>frames\<close> is the number of calls that
  the recursion limit still allows when the search starts. A call with no frame left
  raises \<open>RecursionError\<close>, which passes through every enclosing call, since none of
  them catches it. Otherwise \<open>Inr (Some s)\<close> is a returned string and \<open>Inr None\<close> is
  Python's \<open>None\<close>. The two loops return the first result that is truthy, that is, a
  string that is not empty; \<open>find_in_values\<close> runs over \<open>obj.values()\<close>,
  \<open>find_in_items\<close> over the elements of a list.
\<close>

fun find_content :: "nat \<Rightarrow> json \<Rightarrow> exn + ustring option"
  and find_in_values :: "nat \<Rightarrow> (ustring \<times> json) list \<Rightarrow> exn + ustring option"
  and find_in_items :: "nat \<Rightarrow> json list \<Rightarrow> exn + ustring option" where
  "find_content 0 obj = Inl RecursionError"
| "find_content (Suc frames) (JStr s) = Inr (if length s > 50 then Some s else None)"
| "find_content (Suc frames) (JObj d) =
     (case map_of d (ascii ''content'') of
        Some (JStr s) \<Rightarrow> Inr (Some s)
      | _ \<Rightarrow> find_in_values frames d)"
| "find_content (Suc frames) (JArr items) = find_in_items frames items"
| "find_content (Suc frames) JNull = Inr None"
| "find_content (Suc frames) (JBool b) = Inr None"
| "find_content (Suc frames) (JNum n) = Inr None"
| "find_in_values frames [] = Inr None"
| "find_in_values frames ((key, val) # rest) =
     (case find_content frames val of
        Inl e \<Rightarrow> Inl e
      | Inr (Some result) \<Rightarrow>
          (if result \<noteq> [] then Inr (Some result) else find_in_values frames rest)
      | Inr None \<Rightarrow> find_in_values frames rest)"
| "find_in_items frames [] = Inr None"
| "find_in_items frames (item # rest) =
     (case find_content frames item of
        Inl e \<Rightarrow> Inl e
      | Inr (Some result) \<Rightarrow>
          (if result \<noteq> [] then Inr (Some result) else find_in_items frames rest)
      | Inr None \<Rightarrow> find_in_items frames rest)"

text \<open>
  \<open>_extract_content_simple\<close>: the standard shape first, then the recursive search. An
  exception of the search is caught by the handler of the method, which returns the
  empty string.
\<close>

definition extract_content_simple :: "nat \<Rightarrow> json \<Rightarrow> ustring" where
  "extract_content_simple frames data =
     (case standard_content data of
        Some content \<Rightarrow> content
      | None \<Rightarrow>
          (case find_content frames data of
             Inl e \<Rightarrow> []
           | Inr (Some content) \<Rightarrow> (if content \<noteq> [] then py_strip content else [])
           | Inr None \<Rightarrow> []))"

text \<open>The envelope \<open>{"choices": [{"message": {"content": X}}]}\<close>.\<close>

definition well_formed_envelope :: "ustring \<Rightarrow> json" where
  "well_formed_envelope x =
     JObj [(ascii ''choices'', JArr [JObj [(ascii ''message'', JObj [(ascii ''content'', JStr x)])]])]"

section \<open>Formatting\<close>

text \<open>
  The first statements of \<open>_format_content_refined\<close>: five substitutions, then
  \<open>strip()\<close>. Each pattern and replacement is the raw string of the source.
\<close>

definition cleanup :: "re_sub \<Rightarrow> ustring \<Rightarrow> exn + ustring" where
  "cleanup sub content =
     try_bind (sub (ascii ''[d+]'') [] content) (\<lambda>clean_content.
     try_bind (sub (ascii ''**(.*?)**'') (backslash # ascii ''u0001'') clean_content) (\<lambda>clean_content.
     try_bind (sub (ascii ''*(.*?)*'') (backslash # ascii ''u0001'') clean_content) (\<lambda>clean_content.
     try_bind (sub (ascii ''[ '' @ backslash # ascii ''t]+'') (ascii '' '') clean_content) (\<lambda>clean_content.
     try_bind (sub (ascii ''s*+'') [] clean_content) (\<lambda>clean_content.
       Inr (py_strip clean_content))))))"

text \<open>
  Title and body. \<open>lines\<close> comes from \<open>clean_content.split("")\<close>; the first line is the
  title when it is not empty, under 120 characters and starts with neither a bullet nor
  a dash, and then the body is the rest, or the whole text when the rest is blank.
\<close>

definition split_title :: "ustring list \<Rightarrow> ustring \<Rightarrow> ustring \<times> ustring" where
  "split_title lines clean_content =
     (case lines of
        [] \<Rightarrow> ([], clean_content)
      | line # others \<Rightarrow>
          (let first_line = py_strip line in
           if first_line \<noteq> [] \<and> length first_line < 120
              \<and> \<not> starts_with [bullet_glyph] first_line
              \<and> \<not> starts_with (ascii ''-'') first_line
           then (first_line,
                 (let rest = py_strip (py_join [LF] others) in
                  if rest \<noteq> [] then rest else clean_content))
           else ([], clean_content)))"

definition hashtags_line :: ustring where
  "hashtags_line = ascii ''*#CryptoNews #MarketOverview*''"

definition formatted_header :: "ustring \<Rightarrow> ustring \<Rightarrow> ustring list" where
  "formatted_header title date =
     [chart_glyph # ascii '' **'' @ title @ ascii ''**'',
      calendar_glyph # ascii '' *'' @ date @ ascii ''*'',
      []]"

text \<open>\<open>"".join(formatted_header + bullets + ["", hashtags_line])\<close>.\<close>

definition assemble :: "ustring list \<Rightarrow> ustring list \<Rightarrow> ustring" where
  "assemble header bullets = py_join [] (header @ bullets @ [[], hashtags_line])"

definition max_len :: nat where
  "max_len = 800"

text \<open>
  The length enforcement: when the assembled text is over the limit, the bullets are
  truncated to the budget left by header and hashtag line and the text is assembled
  again.
\<close>

definition enforce_budget :: "ustring list \<Rightarrow> ustring list \<Rightarrow> ustring" where
  "enforce_budget header bullet_content =
     (let result = assemble header bullet_content in
      if length result > max_len
      then (let available_for_bullets =
                  int max_len - (int (length (py_join [] header)) + 1
                                 + int (length hashtags_line) + 2);
                truncated_bullets =
                  truncate_bullets_refined bullet_content (max 0 available_for_bullets)
            in assemble header truncated_bullets)
      else result)"

text \<open>The final cut: \<open>result[: max_len - 1] + "\<dots>"\<close> when the text is still too long.\<close>

definition final_clamp :: "ustring \<Rightarrow> ustring" where
  "final_clamp result =
     (if length result > max_len then take (max_len - 1) result @ [ellipsis_glyph]
      else result)"

definition format_body :: "re_sub \<Rightarrow> (ustring \<Rightarrow> ustring) \<Rightarrow> ustring \<Rightarrow> ustring \<Rightarrow> exn + ustring" where
  "format_body sub lower content date =
     try_bind (cleanup sub content) (\<lambda>clean_content.
     try_bind (py_split [] clean_content) (\<lambda>lines.
       let (title, body_content) = split_title lines clean_content;
           title = (if title = [] then ascii ''Crypto Market Update'' else title);
           header = formatted_header title date;
           bullet_content = convert_to_detailed_bullets sub lower body_content
       in Inr (final_clamp (enforce_budget header bullet_content))))"

text \<open>The handler of \<open>_format_content_refined\<close>: a static text, cut the same way.\<close>

definition format_fallback :: "ustring \<Rightarrow> ustring" where
  "format_fallback date =
     (let fallback = chart_glyph # ascii '' **Crypto Market Update**''
                     @ calendar_glyph # ascii '' *'' @ date @ ascii ''*''
                     @ bullet_glyph # ascii '' Comprehensive market analysis in progress''
                     @ ascii ''*#CryptoNews #MarketOverview*''
      in if length fallback > 800 then take 799 fallback @ [ellipsis_glyph] else fallback)"

definition format_content_refined :: "re_sub \<Rightarrow> (ustring \<Rightarrow> ustring) \<Rightarrow> ustring \<Rightarrow> ustring \<Rightarrow> ustring" where
  "format_content_refined sub lower content date =
     (case format_body sub lower content date of
        Inl e \<Rightarrow> format_fallback date
      | Inr result \<Rightarrow> result)"

section \<open>Image selection\<close>

text \<open>
  \<open>hashlib.md5\<close> is a parameter: it maps the text to a 128-bit digest, or raises when
  \<open>content.encode()\<close> does. \<open>hexdigest\<close> writes the digest as 32 lowercase hexadecimal
  digits, most significant first; \<open>int_base16\<close> is \<open>int(s, 16)\<close> on digit strings.
  \<open>requests.head\<close> is a parameter from the URL to the status code, or an exception.
\<close>

definition hex_char :: "nat \<Rightarrow> nat" where
  "hex_char n = (if n < 10 then 48 + n else 87 + n)"

definition hexdigest :: "128 word \<Rightarrow> ustring" where
  "hexdigest d = map (\<lambda>i. hex_char (unat (drop_bit (4 * (31 - i)) d AND 15))) [0..<32]"

definition hex_value :: "nat \<Rightarrow> nat option" where
  "hex_value c =
     (if 48 \<le> c \<and> c \<le> 57 then Some (c - 48)
      else if 97 \<le> c \<and> c \<le> 102 then Some (c - 87)
      else if 65 \<le> c \<and> c \<le> 70 then Some (c - 55)
      else None)"

fun int_digits :: "nat \<Rightarrow> ustring \<Rightarrow> exn + nat" where
  "int_digits acc [] = Inr acc"
| "int_digits acc (c # cs) =
     (case hex_value c of None \<Rightarrow> Inl ValueError | Some v \<Rightarrow> int_digits (16 * acc + v) cs)"

definition int_base16 :: "ustring \<Rightarrow> exn + nat" where
  "int_base16 s = (if s = [] then Inl ValueError else int_digits 0 s)"

definition fallback_image :: ustring where
  "fallback_image = ascii ''https://images.unsplash.com/photo-1640340434855-6084b1f4901c?w=1200&h=800&fit=crop''"

definition crypto_images :: "ustring \<Rightarrow> ustring list" where
  "crypto_images content_hash =
     [ascii ''https://source.unsplash.com/1200x800/?cryptocurrency,trading,'' @ content_hash,
      ascii ''https://source.unsplash.com/1200x800/?bitcoin,market,analysis'',
      ascii ''https://source.unsplash.com/1200x800/?blockchain,finance,charts'',
      ascii ''https://picsum.photos/1200/800?random='' @ content_hash,
      ascii ''https://images.unsplash.com/photo-1640340434855-6084b1f4901c?w=1200&h=800&fit=crop'',
      ascii ''https://images.unsplash.com/photo-1559757175-0eb30cd8c063?w=1200&h=800&fit=crop'',
      ascii ''https://images.unsplash.com/photo-1616499370260-485b3e5ed653?w=1200&h=800&fit=crop'']"

text \<open>The index into the pool and the candidate it selects, before the probe.\<close>

definition selected_index :: "(ustring \<Rightarrow> exn + 128 word) \<Rightarrow> ustring \<Rightarrow> exn + nat" where
  "selected_index md5 content =
     try_bind (md5 content) (\<lambda>digest.
       let content_hash = take 8 (hexdigest digest) in
       try_bind (int_base16 content_hash) (\<lambda>hash_int.
         Inr (hash_int mod length (crypto_images content_hash))))"

definition selected_image :: "(ustring \<Rightarrow> exn + 128 word) \<Rightarrow> ustring \<Rightarrow> exn + ustring" where
  "selected_image md5 content =
     try_bind (md5 content) (\<lambda>digest.
       let content_hash = take 8 (hexdigest digest) in
       try_bind (selected_index md5 content) (\<lambda>i.
         Inr (crypto_images content_hash ! i)))"

definition generate_unique_crypto_image ::
  "(ustring \<Rightarrow> exn + 128 word) \<Rightarrow> (ustring \<Rightarrow> exn + int) \<Rightarrow> ustring \<Rightarrow> ustring" where
  "generate_unique_crypto_image md5 head content =
     (case selected_image md5 content of
        Inl e \<Rightarrow> fallback_image
      | Inr url \<Rightarrow>
          (case head url of
             Inr status \<Rightarrow> (if status = 200 then url else fallback_image)
           | Inl e \<Rightarrow> fallback_image))"

section \<open>Fallback content and the public operation\<close>

text \<open>The record \<open>ComposedContent\<close>; its field \<open>text\<close> is \<open>content_text\<close> here.\<close>

record composed_content =
  content_text :: ustring
  image_url :: ustring
  char_count :: int

definition fallback_bullets :: "ustring list" where
  "fallback_bullets =
     [bullet_glyph # ascii '' Bitcoin trading activity continues with notable institutional transactions reported'',
      bullet_glyph # ascii '' Ethereum network updates and Layer 2 scaling solutions see increased adoption'',
      bullet_glyph # ascii '' Major altcoins display varied performance across different market segments'',
      bullet_glyph # ascii '' Global economic indicators and central bank policies influence crypto market sentiment'',
      bullet_glyph # ascii '' Regulatory developments in key jurisdictions impact trading volumes and market access'',
      bullet_glyph # ascii '' Upcoming industry events and protocol upgrades scheduled for near-term implementation'']"

definition create_refined_fallback_content ::
  "(ustring \<Rightarrow> exn + 128 word) \<Rightarrow> (ustring \<Rightarrow> exn + int) \<Rightarrow> ustring \<Rightarrow> composed_content" where
  "create_refined_fallback_content md5 head date =
     (let formatted_content =
            chart_glyph # ascii '' **Crypto Market Update**'' @ [LF]
            @ calendar_glyph # ascii '' *'' @ date @ ascii ''*'' @ [LF, LF]
            @ py_join [LF] fallback_bullets @ [LF, LF]
            @ ascii ''*#CryptoNews #MarketOverview*'';
          formatted_content =
            (if length formatted_content > 800
             then take 799 formatted_content @ [ellipsis_glyph] else formatted_content)
      in \<lparr>content_text = formatted_content,
          image_url = generate_unique_crypto_image md5 head formatted_content,
          char_count = int (length formatted_content)\<rparr>)"

text \<open>
  Everything \<open>get_crypto_news_content\<close> takes from outside: the two readings of the
  clock (formatted as dates; one in the body, one in the handler), the outcome of the
  POST request, the HEAD probe, the library functions, and the number of nested calls
  that the recursion limit still allows when the extraction starts its search.
\<close>

record response =
  status_code :: int
  json_body :: "exn + json"

record world =
  today_body :: ustring
  today_handler :: ustring
  http_post :: "exn + response"
  http_head :: "ustring \<Rightarrow> exn + int"
  md5_digest :: "ustring \<Rightarrow> exn + 128 word"
  regex_sub :: re_sub
  str_lower :: "ustring \<Rightarrow> ustring"
  stack_room :: nat

text \<open>The body of the \<open>try\<close> of \<open>get_crypto_news_content\<close>, from the request on.\<close>

definition news_body :: "world \<Rightarrow> exn + composed_content" where
  "news_body w =
     (let formatted_date = today_body w in
      try_bind (http_post w) (\<lambda>response.
        if status_code response \<noteq> 200
        then Inr (create_refined_fallback_content (md5_digest w) (http_head w) formatted_date)
        else (case json_body response of
                Inl e \<Rightarrow>
                  Inr (create_refined_fallback_content (md5_digest w) (http_head w) formatted_date)
              | Inr data \<Rightarrow>
                  (let content = extract_content_simple (stack_room w) data in
                   if content = []
                   then Inr (create_refined_fallback_content (md5_digest w) (http_head w)
                               formatted_date)
                   else (let formatted_content =
                               format_content_refined (regex_sub w) (str_lower w) content
                                 formatted_date;
                             image = generate_unique_crypto_image (md5_digest w) (http_head w)
                                       formatted_content
                         in Inr \<lparr>content_text = formatted_content, image_url = image,
                                 char_count = int (length formatted_content)\<rparr>)))))"

text \<open>
  What the text of \<open>get_crypto_news_content\<close> computes once it runs: the body, and the
  handler that answers every exception with the fallback content.
\<close>

definition run_get_crypto_news_content :: "world \<Rightarrow> exn + composed_content" where
  "run_get_crypto_news_content w =
     (case news_body w of
        Inl e \<Rightarrow> Inr (create_refined_fallback_content (md5_digest w) (http_head w)
                        (today_handler w))
      | Inr result \<Rightarrow> Inr result)"






section \<open>The walk of the truncation, in the words of the specification\<close>

text \<open>
  The cost of a run of bullets: the length of each plus one character for its line
  break.
\<close>

definition cost :: "ustring list \<Rightarrow> int" where
  "cost bs = sum_list (map (\<lambda>b. int (length b) + 1) bs)"

text \<open>
  The first match of a search, given the results of the searches below it in visiting
  order: the first result that is a string and not empty.
\<close>

definition truthy :: "ustring option \<Rightarrow> bool" where
  "truthy r = (case r of None \<Rightarrow> False | Some s \<Rightarrow> s \<noteq> [])"

definition first_match :: "ustring option list \<Rightarrow> ustring option" where
  "first_match rs = (case filter truthy rs of [] \<Rightarrow> None | r # _ \<Rightarrow> r)"

text \<open>
  The recursive search in the words of the specification, with no bound on the nesting:
  a string longer than 50 characters is accepted, a mapping with a string under the key
  \<open>content\<close> gives that string, any other mapping and a sequence are searched through
  their values and elements in order, and the first match wins.
\<close>

fun depth_first_search :: "json \<Rightarrow> ustring option"
  and search_values :: "(ustring \<times> json) list \<Rightarrow> ustring option"
  and search_items :: "json list \<Rightarrow> ustring option" where
  "depth_first_search (JStr s) = (if length s > 50 then Some s else None)"
| "depth_first_search (JObj d) =
     (case map_of d (ascii ''content'') of
        Some (JStr s) \<Rightarrow> Some s
      | _ \<Rightarrow> search_values d)"
| "depth_first_search (JArr items) = search_items items"
| "depth_first_search JNull = None"
| "depth_first_search (JBool b) = None"
| "depth_first_search (JNum n) = None"
| "search_values [] = None"
| "search_values ((key, val) # rest) =
     (if truthy (depth_first_search val) then depth_first_search val else search_values rest)"
| "search_items [] = None"
| "search_items (item # rest) =
     (if truthy (depth_first_search item) then depth_first_search item else search_items rest)"

text \<open>
  The depth of an envelope: the number of nested calls that a search through all of it
  needs. \<open>nested_lists n j\<close> wraps \<open>j\<close> in \<open>n\<close> one-element lists.
\<close>

fun json_depth :: "json \<Rightarrow> nat"
  and depth_values :: "(ustring \<times> json) list \<Rightarrow> nat"
  and depth_items :: "json list \<Rightarrow> nat" where
  "json_depth (JArr items) = Suc (depth_items items)"
| "json_depth (JObj d) = Suc (depth_values d)"
| "json_depth (JStr s) = Suc 0"
| "json_depth JNull = Suc 0"
| "json_depth (JBool b) = Suc 0"
| "json_depth (JNum n) = Suc 0"
| "depth_values [] = 0"
| "depth_values ((key, val) # rest) = max (json_depth val) (depth_values rest)"
| "depth_items [] = 0"
| "depth_items (item # rest) = max (json_depth item) (depth_items rest)"

primrec nested_lists :: "nat \<Rightarrow> json \<Rightarrow> json" where
  "nested_lists 0 j = j"
| "nested_lists (Suc n) j = JArr [nested_lists n j]"

section \<open>Properties of the bullet truncation\<close>

text \<open>
  Claim C10. For every non-empty bullet list, a budget of zero or less makes the helper
  return the empty list at once; the rescue that hands back the first three original
  bullets happens only under a positive budget, where it replaces every walk result of
  fewer than three bullets.
\<close>

theorem truncate_nonpositive_budget_empty:
  "bullets \<noteq> [] \<Longrightarrow>
     (max_chars \<le> 0 \<longrightarrow> truncate_bullets_refined bullets max_chars = [])
   \<and> (truncate_bullets_refined bullets max_chars = take 3 bullets
        \<and> length (truncate_loop bullets max_chars 0) < 3 \<longrightarrow> 0 < max_chars)
   \<and> (0 < max_chars \<and> length (truncate_loop bullets max_chars 0) < 3
        \<longrightarrow> truncate_bullets_refined bullets max_chars = take 3 bullets)"
  by (cases bullets) (auto simp: truncate_bullets_refined_def Let_def)

theorem truncate_nonpositive_budget_empty_witness:
  "[ascii ''a'', ascii ''b''] \<noteq> []
   \<and> truncate_bullets_refined [ascii ''a'', ascii ''b''] 0 = []
   \<and> truncate_bullets_refined [ascii ''a'', ascii ''b''] (-5) = []
   \<and> truncate_bullets_refined [ascii ''a'', ascii ''b''] 1 = [ascii ''a'', ascii ''b'']"
  using truncate_nonpositive_budget_empty [of "[ascii ''a'', ascii ''b'']" 0]
        truncate_nonpositive_budget_empty [of "[ascii ''a'', ascii ''b'']" "-5"]
        truncate_nonpositive_budget_empty [of "[ascii ''a'', ascii ''b'']" 1]
  by (simp add: ascii_def)

lemma cost_Nil [simp]: "cost [] = 0"
  by (simp add: cost_def)

lemma cost_Cons [simp]: "cost (b # bs) = int (length b) + 1 + cost bs"
  by (simp add: cost_def)

lemma cost_nonneg: "0 \<le> cost bs"
  by (induction bs) auto

lemma truncate_loop_all_fit:
  "c + cost bs \<le> m \<Longrightarrow> truncate_loop bs m c = bs"
proof (induction bs arbitrary: c)
  case Nil then show ?case by simp
next
  case (Cons b bs)
  from Cons.prems have fit: "c + (int (length b) + 1) \<le> m"
    using cost_nonneg [of bs] by simp
  from Cons.prems have "(c + (int (length b) + 1)) + cost bs \<le> m" by simp
  from Cons.IH [OF this] fit show ?case by (simp add: Let_def)
qed

lemma truncate_loop_stops:
  "k < length bs \<Longrightarrow> c + cost (take k bs) \<le> m \<Longrightarrow> m < c + cost (take (Suc k) bs) \<Longrightarrow>
   truncate_loop bs m c = take k bs @
     (if m - c - cost (take k bs) > 30
      then [py_rstrip (take (nat (m - c - cost (take k bs) - 3)) (bs ! k)) @ dots] else [])"
proof (induction bs arbitrary: c k)
  case Nil then show ?case by simp
next
  case (Cons b bs)
  show ?case
  proof (cases k)
    case 0
    with Cons.prems show ?thesis by (simp add: Let_def)
  next
    case (Suc j)
    with Cons.prems have fit: "c + (int (length b) + 1) \<le> m"
      using cost_nonneg [of "take j bs"] by simp
    from Suc Cons.prems have "j < length bs"
      "(c + (int (length b) + 1)) + cost (take j bs) \<le> m"
      "m < (c + (int (length b) + 1)) + cost (take (Suc j) bs)" by simp_all
    from Cons.IH [OF this] fit Suc show ?thesis
      by (simp add: Let_def algebra_simps)
  qed
qed

text \<open>
  Claim C3, as stated, promises the first three original bullets whenever fewer than
  three survive the walk. With the budget 0 the walk keeps nothing of the six
  comprehensive bullets, and the helper returns the empty list, not the first three.
\<close>

theorem truncate_rescue_counterexample:
  "length (truncate_loop generate_comprehensive_bullets 0 0) < 3
   \<and> truncate_bullets_refined generate_comprehensive_bullets 0 \<noteq> take 3 generate_comprehensive_bullets"
  by (simp add: truncate_bullets_refined_def generate_comprehensive_bullets_def Let_def)

text \<open>
  Claim C3, amended. Under a positive budget the helper walks the bullets in order,
  charging each its length plus one: when all fit, all are returned; otherwise the
  bullets before the first one that does not fit survive, followed by a copy of that one
  cut to the remaining budget minus three, stripped on the right and ended with three
  dots, only if the remaining budget exceeds 30; and when fewer than three survive, the
  first three original bullets are returned instead. Under a budget of zero or less the
  helper returns the empty list and there is no rescue.
\<close>

theorem truncate_walk_and_rescue:
  "(max_chars \<le> 0 \<longrightarrow> truncate_bullets_refined bullets max_chars = [])
   \<and> (0 < max_chars \<and> cost bullets \<le> max_chars
        \<longrightarrow> truncate_bullets_refined bullets max_chars = bullets)
   \<and> (0 < max_chars \<and> k < length bullets \<and> cost (take k bullets) \<le> max_chars
        \<and> max_chars < cost (take (Suc k) bullets)
        \<longrightarrow> truncate_bullets_refined bullets max_chars =
            (let remaining = max_chars - cost (take k bullets);
                 survivors = take k bullets @
                   (if remaining > 30
                    then [py_rstrip (take (nat (remaining - 3)) (bullets ! k)) @ dots]
                    else [])
             in if length survivors < 3 then take 3 bullets else survivors))"
proof (intro conjI impI)
  assume "max_chars \<le> 0"
  then show "truncate_bullets_refined bullets max_chars = []"
    by (simp add: truncate_bullets_refined_def)
next
  assume a: "0 < max_chars \<and> cost bullets \<le> max_chars"
  then have "truncate_loop bullets max_chars 0 = bullets"
    using truncate_loop_all_fit [of 0 bullets max_chars] by simp
  with a show "truncate_bullets_refined bullets max_chars = bullets"
    by (simp add: truncate_bullets_refined_def)
next
  assume a: "0 < max_chars \<and> k < length bullets \<and> cost (take k bullets) \<le> max_chars
        \<and> max_chars < cost (take (Suc k) bullets)"
  then have ne: "bullets \<noteq> []" by auto
  from a have "truncate_loop bullets max_chars 0 = take k bullets @
     (if max_chars - 0 - cost (take k bullets) > 30
      then [py_rstrip (take (nat (max_chars - 0 - cost (take k bullets) - 3)) (bullets ! k)) @ dots]
      else [])"
    by (intro truncate_loop_stops) simp_all
  with a ne show "truncate_bullets_refined bullets max_chars =
            (let remaining = max_chars - cost (take k bullets);
                 survivors = take k bullets @
                   (if remaining > 30
                    then [py_rstrip (take (nat (remaining - 3)) (bullets ! k)) @ dots]
                    else [])
             in if length survivors < 3 then take 3 bullets else survivors)"
    by (simp add: truncate_bullets_refined_def Let_def)
qed

theorem truncate_walk_and_rescue_witness:
  "truncate_bullets_refined
     [ascii ''a'', ascii ''b'', ascii ''Bitcoin holds above key support this week'', ascii ''c''] 39
   = [ascii ''a'', ascii ''b'', ascii ''Bitcoin holds above key support...'']
   \<and> truncate_bullets_refined
     [ascii ''a'', ascii ''b'', ascii ''Bitcoin holds above key support this week'', ascii ''c''] 20
   = [ascii ''a'', ascii ''b'', ascii ''Bitcoin holds above key support this week'']
   \<and> truncate_bullets_refined [ascii ''a'', ascii ''b''] 4 = [ascii ''a'', ascii ''b'']
   \<and> truncate_bullets_refined [ascii ''a'', ascii ''b''] 0 = []"
  using truncate_walk_and_rescue
          [of 39 "[ascii ''a'', ascii ''b'', ascii ''Bitcoin holds above key support this week'', ascii ''c'']" 2]
        truncate_walk_and_rescue
          [of 20 "[ascii ''a'', ascii ''b'', ascii ''Bitcoin holds above key support this week'', ascii ''c'']" 2]
        truncate_walk_and_rescue [of 4 "[ascii ''a'', ascii ''b'']" 0]
        truncate_walk_and_rescue [of 0 "[ascii ''a'', ascii ''b'']" 0]
  by (simp add: ascii_def dots_def py_rstrip_def rstrip_chars_def is_space_def Let_def)

section \<open>Evaluation of the string primitives\<close>

lemmas eval_strings = ascii_def py_strip_def lstrip_chars_def rstrip_chars_def is_space_def
  terminal_def replace_char_def py_split_def try_bind_def Let_def


section \<open>Properties of the bulletization\<close>

lemma length_comprehensive: "length generate_comprehensive_bullets = 6"
  by (simp add: generate_comprehensive_bullets_def)

lemma ensure_4_to_6_length: "4 \<le> length (ensure_4_to_6 bs) \<and> length (ensure_4_to_6 bs) \<le> 6"
  by (simp add: ensure_4_to_6_def length_comprehensive)

text \<open>
  Claim C4. For every body text, whatever the substitution and the case mapping do, the
  bulletization returns between 4 and 6 bullets: fewer than 4 bullets from the sentence
  loop are replaced by the six comprehensive bullets, of more than 6 the first 6 are
  kept, and 4 to 6 are returned as they are.
\<close>

theorem bulletization_between_4_and_6:
  "4 \<le> length (convert_to_detailed_bullets sub lower content)
   \<and> length (convert_to_detailed_bullets sub lower content) \<le> 6
   \<and> length generate_comprehensive_bullets = 6
   \<and> (sub (ascii ''(?:#w+s*)+$'') [] content = Inr stripped
        \<and> sentences_of (py_strip stripped) = Inr sentences
        \<longrightarrow> (length (bullets_loop lower sentences) < 4
               \<longrightarrow> convert_to_detailed_bullets sub lower content = generate_comprehensive_bullets)
          \<and> (6 < length (bullets_loop lower sentences)
               \<longrightarrow> convert_to_detailed_bullets sub lower content
                   = take 6 (bullets_loop lower sentences))
          \<and> (4 \<le> length (bullets_loop lower sentences)
              \<and> length (bullets_loop lower sentences) \<le> 6
               \<longrightarrow> convert_to_detailed_bullets sub lower content
                   = bullets_loop lower sentences))"
proof -
  have len: "4 \<le> length (convert_to_detailed_bullets sub lower content)
      \<and> length (convert_to_detailed_bullets sub lower content) \<le> 6"
  proof (cases "convert_body sub lower content")
    case (Inl e)
    then show ?thesis
      by (simp add: convert_to_detailed_bullets_def length_comprehensive)
  next
    case (Inr bs)
    then obtain raw where "bs = ensure_4_to_6 raw"
      by (auto simp: convert_body_def try_bind_def Let_def split: sum.splits)
    with Inr show ?thesis
      using ensure_4_to_6_length [of raw] by (simp add: convert_to_detailed_bullets_def)
  qed
  have shape: "convert_to_detailed_bullets sub lower content
        = ensure_4_to_6 (bullets_loop lower sentences)"
    if "sub (ascii ''(?:#w+s*)+$'') [] content = Inr stripped"
       "sentences_of (py_strip stripped) = Inr sentences"
    using that
    by (simp add: convert_to_detailed_bullets_def convert_body_def try_bind_def Let_def)
  from len shape show ?thesis
    by (auto simp: length_comprehensive ensure_4_to_6_def)
qed

theorem bulletization_between_4_and_6_witness:
  "convert_to_detailed_bullets (re_sub_python no_match) ascii_lower
     (ascii ''Bitcoin rose sharply today. Calm.'') = generate_comprehensive_bullets
   \<and> convert_to_detailed_bullets (re_sub_python no_match) ascii_lower
     (ascii ''Stocks rose in Asia today. Oil fell after the report. Gold was flat in London. Bonds rallied into the close. The dollar index was firm. Copper slid on weak data. Wheat jumped on the news.'')
     = [bullet_glyph # ascii '' Stocks rose in Asia today'',
        bullet_glyph # ascii '' Oil fell after the report'',
        bullet_glyph # ascii '' Gold was flat in London'',
        bullet_glyph # ascii '' Bonds rallied into the close'',
        bullet_glyph # ascii '' The dollar index was firm'',
        bullet_glyph # ascii '' Copper slid on weak data'']"
proof -
  have sub: "re_sub_python no_match (ascii ''(?:#w+s*)+$'') [] c = Inr c" for c
    by (simp add: re_sub_python_def nothing_to_repeat_def no_match_def ascii_def)
  have s1: "sentences_of (py_strip (ascii ''Bitcoin rose sharply today. Calm.''))
      = Inr [ascii ''Bitcoin rose sharply today.'']"
    by (simp add: sentences_of_def eval_strings)
  have b1: "length (bullets_loop ascii_lower [ascii ''Bitcoin rose sharply today.'']) < 4"
    by (simp add: Let_def)
  have s2: "sentences_of (py_strip (ascii ''Stocks rose in Asia today. Oil fell after the report. Gold was flat in London. Bonds rallied into the close. The dollar index was firm. Copper slid on weak data. Wheat jumped on the news.''))
      = Inr [ascii ''Stocks rose in Asia today.'', ascii ''Oil fell after the report.'',
             ascii ''Gold was flat in London.'', ascii ''Bonds rallied into the close.'',
             ascii ''The dollar index was firm.'', ascii ''Copper slid on weak data.'',
             ascii ''Wheat jumped on the news.'']"
    by (simp add: sentences_of_def eval_strings)
  have b2: "bullets_loop ascii_lower
       [ascii ''Stocks rose in Asia today.'', ascii ''Oil fell after the report.'',
        ascii ''Gold was flat in London.'', ascii ''Bonds rallied into the close.'',
        ascii ''The dollar index was firm.'', ascii ''Copper slid on weak data.'',
        ascii ''Wheat jumped on the news.'']
     = [bullet_glyph # ascii '' Stocks rose in Asia today'',
        bullet_glyph # ascii '' Oil fell after the report'',
        bullet_glyph # ascii '' Gold was flat in London'',
        bullet_glyph # ascii '' Bonds rallied into the close'',
        bullet_glyph # ascii '' The dollar index was firm'',
        bullet_glyph # ascii '' Copper slid on weak data'',
        bullet_glyph # ascii '' Wheat jumped on the news'']"
    by (simp add: enhance_short_bullet_def enhancements_def ascii_lower_def eval_strings)
  from bulletization_between_4_and_6
         [of "re_sub_python no_match" ascii_lower "ascii ''Bitcoin rose sharply today. Calm.''"
             "ascii ''Bitcoin rose sharply today. Calm.''" "[ascii ''Bitcoin rose sharply today.'']"]
       sub s1 b1
  have w1: "convert_to_detailed_bullets (re_sub_python no_match) ascii_lower
     (ascii ''Bitcoin rose sharply today. Calm.'') = generate_comprehensive_bullets"
    by simp
  from bulletization_between_4_and_6
         [of "re_sub_python no_match" ascii_lower
             "ascii ''Stocks rose in Asia today. Oil fell after the report. Gold was flat in London. Bonds rallied into the close. The dollar index was firm. Copper slid on weak data. Wheat jumped on the news.''"
             "ascii ''Stocks rose in Asia today. Oil fell after the report. Gold was flat in London. Bonds rallied into the close. The dollar index was firm. Copper slid on weak data. Wheat jumped on the news.''"
             "[ascii ''Stocks rose in Asia today.'', ascii ''Oil fell after the report.'',
               ascii ''Gold was flat in London.'', ascii ''Bonds rallied into the close.'',
               ascii ''The dollar index was firm.'', ascii ''Copper slid on weak data.'',
               ascii ''Wheat jumped on the news.'']"]
       sub s2 b2
  have w2: "convert_to_detailed_bullets (re_sub_python no_match) ascii_lower
     (ascii ''Stocks rose in Asia today. Oil fell after the report. Gold was flat in London. Bonds rallied into the close. The dollar index was firm. Copper slid on weak data. Wheat jumped on the news.'')
     = take 6 [bullet_glyph # ascii '' Stocks rose in Asia today'',
        bullet_glyph # ascii '' Oil fell after the report'',
        bullet_glyph # ascii '' Gold was flat in London'',
        bullet_glyph # ascii '' Bonds rallied into the close'',
        bullet_glyph # ascii '' The dollar index was firm'',
        bullet_glyph # ascii '' Copper slid on weak data'',
        bullet_glyph # ascii '' Wheat jumped on the news'']"
    by simp
  from w1 w2 show ?thesis by simp
qed

lemma enhance_loop_find:
  "enhance_loop bullet_lower bullet table =
     (if length bullet < 50
      then map_option snd (List.find (\<lambda>(key, enhancement). contains key bullet_lower) table)
      else None)"
  by (induction table) auto

text \<open>
  Claim C8, as stated, has every retained sentence under 60 characters replaced by the
  canned sentence of its first matching keyword. A sentence of 54 characters that
  contains the keyword \<open>bitcoin\<close> is retained, is under 60, and is kept as it is.
\<close>

theorem enhancement_under_60_counterexample:
  "15 < length (ascii ''Bitcoin climbed again while traders watched the dollar'')
   \<and> length (ascii ''Bitcoin climbed again while traders watched the dollar'') < 60
   \<and> contains (ascii ''bitcoin'')
        (ascii_lower (ascii ''Bitcoin climbed again while traders watched the dollar''))
   \<and> bullets_loop ascii_lower [ascii ''Bitcoin climbed again while traders watched the dollar.'']
       = [bullet_glyph # 32 # ascii ''Bitcoin climbed again while traders watched the dollar'']"
  by (simp add: enhance_short_bullet_def enhance_loop_find ascii_lower_def ascii_def
        py_strip_def lstrip_chars_def rstrip_chars_def terminal_def is_space_def Let_def)

text \<open>
  Claim C8, amended. The bulletization calls the enhancement for every retained
  sentence that is under 60 characters after stripping. The enhancement replaces the
  sentence by the canned sentence of the first keyword of the mapping, in its order, that
  occurs in the lower-cased sentence, only when the sentence is under 50 characters; a
  sentence of 50 characters or more, hence also one of 60 or more, is never
  substituted, and a sentence under 50 without a keyword is kept.
\<close>

theorem enhancement_guarded_by_50:
  "(50 \<le> length s \<longrightarrow> enhance_short_bullet lower s = s)
   \<and> (length s < 50
        \<and> List.find (\<lambda>(key, enhancement). contains key (lower s)) enhancements
            = Some (key, enhancement)
        \<longrightarrow> enhance_short_bullet lower s = enhancement)
   \<and> (length s < 50
        \<and> List.find (\<lambda>(key, enhancement). contains key (lower s)) enhancements = None
        \<longrightarrow> enhance_short_bullet lower s = s)
   \<and> bullets_loop lower (sentence # rest) =
       (let stripped = py_strip (rstrip_chars terminal sentence) in
        if stripped = [] then bullets_loop lower rest
        else (bullet_glyph # 32 #
                (if length stripped < 60 then enhance_short_bullet lower stripped
                 else stripped))
             # bullets_loop lower rest)"
  by (simp add: enhance_short_bullet_def enhance_loop_find Let_def)

theorem enhancement_guarded_by_50_witness:
  "enhance_short_bullet ascii_lower (ascii ''Bitcoin price holds'')
     = ascii ''Bitcoin continues its market leadership with institutional interest''
   \<and> enhance_short_bullet ascii_lower (ascii ''Gold was flat in London'')
     = ascii ''Gold was flat in London''
   \<and> enhance_short_bullet ascii_lower
       (ascii ''Bitcoin climbed again while traders watched the dollar'')
     = ascii ''Bitcoin climbed again while traders watched the dollar''"
  using enhancement_guarded_by_50
          [of "ascii ''Bitcoin price holds''" ascii_lower "ascii ''bitcoin''"
              "ascii ''Bitcoin continues its market leadership with institutional interest''"]
        enhancement_guarded_by_50 [of "ascii ''Gold was flat in London''" ascii_lower]
        enhancement_guarded_by_50
          [of "ascii ''Bitcoin climbed again while traders watched the dollar''" ascii_lower]
  by (simp add: enhancements_def ascii_lower_def ascii_def)

section \<open>Properties of the image selection\<close>

lemma hex_value_hex_char: "n < 16 \<Longrightarrow> hex_value (hex_char n) = Some n"
  by (auto simp: hex_value_def hex_char_def)

lemma nibble_less_16: "unat ((w :: 128 word) AND 15) < 16"
proof -
  have "w AND 15 \<le> 15" by (rule word_and_le1)
  then have "unat (w AND 15) \<le> unat (15 :: 128 word)" by (simp add: word_le_nat_alt)
  then show ?thesis by simp
qed

lemma int_digits_hex:
  "\<forall>c \<in> set s. \<exists>n < 16. c = hex_char n \<Longrightarrow> \<exists>h. int_digits acc s = Inr h"
proof (induction s arbitrary: acc)
  case Nil then show ?case by simp
next
  case (Cons c s)
  then obtain n where n: "n < 16" "c = hex_char n" by auto
  from Cons obtain h where "int_digits (16 * acc + n) s = Inr h" by fastforce
  with n show ?case by (simp add: hex_value_hex_char)
qed

lemma take_8_hexdigest:
  "take 8 (hexdigest d) = map (\<lambda>i. hex_char (unat (drop_bit (4 * (31 - i)) d AND 15))) [0..<8]"
  by (simp add: hexdigest_def take_map)

lemma int_base16_hexdigest: "\<exists>h. int_base16 (take 8 (hexdigest d)) = Inr h"
proof -
  have ne: "take 8 (hexdigest d) \<noteq> []"
    by (simp add: hexdigest_def)
  have "\<forall>c \<in> set (take 8 (hexdigest d)). \<exists>n < 16. c = hex_char n"
    unfolding take_8_hexdigest using nibble_less_16 by auto
  from int_digits_hex [OF this, of 0] ne show ?thesis
    by (simp add: int_base16_def)
qed

lemma length_crypto_images: "length (crypto_images h) = 7"
  by (simp add: crypto_images_def)

text \<open>
  Claim C9. For every text that the hash accepts, the first 8 hexadecimal digits of its
  digest are a number \<open>h\<close>, the selected index is \<open>h mod 7\<close>, and the selected
  candidate is the entry of the 7-entry pool at that index: index and candidate depend
  on the text through the digest only. Whenever the probe of that candidate answers
  200, it is the URL returned, so two selections over the same text whose probes both
  succeed return the same URL.
\<close>

theorem image_selection_deterministic:
  "md5 content = Inr digest \<Longrightarrow>
     \<exists>h. int_base16 (take 8 (hexdigest digest)) = Inr h
       \<and> selected_index md5 content = Inr (h mod 7)
       \<and> selected_image md5 content = Inr (crypto_images (take 8 (hexdigest digest)) ! (h mod 7))
       \<and> (head (crypto_images (take 8 (hexdigest digest)) ! (h mod 7)) = Inr 200
            \<longrightarrow> generate_unique_crypto_image md5 head content
                = crypto_images (take 8 (hexdigest digest)) ! (h mod 7))
       \<and> (head (crypto_images (take 8 (hexdigest digest)) ! (h mod 7)) = Inr 200
          \<and> head' (crypto_images (take 8 (hexdigest digest)) ! (h mod 7)) = Inr 200
            \<longrightarrow> generate_unique_crypto_image md5 head content
                = generate_unique_crypto_image md5 head' content)"
proof -
  assume md5: "md5 content = Inr digest"
  obtain h where h: "int_base16 (take 8 (hexdigest digest)) = Inr h"
    using int_base16_hexdigest by blast
  from md5 h have idx: "selected_index md5 content = Inr (h mod 7)"
    by (simp add: selected_index_def try_bind_def Let_def length_crypto_images)
  from md5 idx have img: "selected_image md5 content
      = Inr (crypto_images (take 8 (hexdigest digest)) ! (h mod 7))"
    by (simp add: selected_image_def try_bind_def Let_def)
  from h idx img show ?thesis
    by (auto simp: generate_unique_crypto_image_def)
qed

theorem image_selection_deterministic_witness:
  "selected_index (\<lambda>text. Inr 0x0000000a00000000deadbeef00000000) (ascii ''x'') = Inr 3
   \<and> generate_unique_crypto_image (\<lambda>text. Inr 0x0000000a00000000deadbeef00000000)
        (\<lambda>url. Inr 200) (ascii ''x'')
      = ascii ''https://picsum.photos/1200/800?random=0000000a''
   \<and> generate_unique_crypto_image (\<lambda>text. Inr 0x0000000a00000000deadbeef00000000)
        (\<lambda>url. Inr 200) (ascii ''x'')
      = generate_unique_crypto_image (\<lambda>text. Inr 0x0000000a00000000deadbeef00000000)
          (\<lambda>url. if url = ascii ''https://picsum.photos/1200/800?random=0000000a''
                  then Inr 200 else Inl RequestException) (ascii ''x'')"
proof -
  let ?md5 = "\<lambda>text::ustring. Inr (0x0000000a00000000deadbeef00000000 :: 128 word) :: exn + 128 word"
  let ?head = "\<lambda>url::ustring. Inr 200 :: exn + int"
  let ?head' = "\<lambda>url. if url = ascii ''https://picsum.photos/1200/800?random=0000000a''
                then Inr 200 else Inl RequestException :: exn + int"
  have hash: "take 8 (hexdigest 0x0000000a00000000deadbeef00000000) = ascii ''0000000a''"
    by code_simp
  have val: "int_base16 (ascii ''0000000a'') = Inr 10"
    by (simp add: int_base16_def hex_value_def ascii_def)
  have url: "crypto_images (ascii ''0000000a'') ! 3
      = ascii ''https://picsum.photos/1200/800?random=0000000a''"
    by (simp add: crypto_images_def ascii_def)
  have inst: "selected_index ?md5 (ascii ''x'') = Inr 3
      \<and> selected_image ?md5 (ascii ''x'')
          = Inr (ascii ''https://picsum.photos/1200/800?random=0000000a'')
      \<and> generate_unique_crypto_image ?md5 ?head (ascii ''x'')
          = ascii ''https://picsum.photos/1200/800?random=0000000a''
      \<and> generate_unique_crypto_image ?md5 ?head (ascii ''x'')
          = generate_unique_crypto_image ?md5 ?head' (ascii ''x'')"
    using image_selection_deterministic
         [of ?md5 "ascii ''x''" "0x0000000a00000000deadbeef00000000" ?head ?head']
    by (simp (no_asm_use) add: hash val url)
  then show ?thesis by blast
qed

section \<open>Properties of the formatting\<close>

lemma final_clamp_length: "length (final_clamp r) \<le> 800"
  by (simp add: final_clamp_def max_len_def)

lemma clamp_800: "length (if 800 < length x then take 799 x @ [e] else x) \<le> 800"
  by simp

lemma format_fallback_length: "length (format_fallback date) \<le> 800"
  unfolding format_fallback_def Let_def by (rule clamp_800)

lemma format_body_clamped:
  "format_body sub lower content date = Inr out \<Longrightarrow> \<exists>r. out = final_clamp r"
  by (auto simp: format_body_def try_bind_def Let_def split: sum.splits prod.splits)

lemma fallback_content_text_length:
  "length (content_text (create_refined_fallback_content md5 head date)) \<le> 800"
  unfolding create_refined_fallback_content_def Let_def composed_content.simps
  by (rule clamp_800)

lemma join_empty_concat: "py_join [] xs = concat xs"
  by (induction "[] :: ustring" xs rule: py_join.induct) simp_all

lemma assemble_length:
  "length (assemble header bullets)
     = length (concat header) + length (concat bullets) + length hashtags_line"
  by (simp add: assemble_def join_empty_concat)

lemma enforce_budget_covers_header:
  "length (concat header) \<le> length (enforce_budget header bullets)"
  by (simp add: enforce_budget_def Let_def assemble_length)

text \<open>
  Claim C1. For every content and every date, whatever the substitution and the case
  mapping do, the text returned by the formatting has at most 800 code points, and so has
  the text of the fallback content. The text assembled after the bullet truncation
  passes the final cut: when it is longer than 800 it becomes its first 799 characters
  followed by one ellipsis character, otherwise it is returned as it is.
\<close>

theorem formatted_text_at_most_800:
  "length (format_content_refined sub lower content date) \<le> 800
   \<and> length (content_text (create_refined_fallback_content md5 head date)) \<le> 800
   \<and> length (final_clamp (enforce_budget header bullets)) \<le> 800
   \<and> (800 < length (enforce_budget header bullets)
        \<longrightarrow> final_clamp (enforce_budget header bullets)
            = take 799 (enforce_budget header bullets) @ [ellipsis_glyph])
   \<and> (length (enforce_budget header bullets) \<le> 800
        \<longrightarrow> final_clamp (enforce_budget header bullets) = enforce_budget header bullets)"
proof -
  have "length (format_content_refined sub lower content date) \<le> 800"
  proof (cases "format_body sub lower content date")
    case (Inl e)
    then show ?thesis
      by (simp add: format_content_refined_def format_fallback_length)
  next
    case (Inr out)
    then obtain r where "out = final_clamp r"
      using format_body_clamped by blast
    with Inr show ?thesis
      by (simp add: format_content_refined_def final_clamp_length)
  qed
  then show ?thesis
    by (simp add: fallback_content_text_length final_clamp_length)
       (simp add: final_clamp_def max_len_def)
qed

theorem formatted_text_at_most_800_witness:
  "800 < length (enforce_budget (formatted_header (replicate 900 65) (ascii ''May 01, 2025''))
                   generate_comprehensive_bullets)
   \<and> final_clamp (enforce_budget (formatted_header (replicate 900 65) (ascii ''May 01, 2025''))
                   generate_comprehensive_bullets)
       = take 799 (enforce_budget (formatted_header (replicate 900 65) (ascii ''May 01, 2025''))
                   generate_comprehensive_bullets) @ [ellipsis_glyph]
   \<and> length (enforce_budget (formatted_header (ascii ''Markets today'') (ascii ''May 01, 2025''))
                   generate_comprehensive_bullets) \<le> 800
   \<and> final_clamp (enforce_budget (formatted_header (ascii ''Markets today'') (ascii ''May 01, 2025''))
                   generate_comprehensive_bullets)
       = enforce_budget (formatted_header (ascii ''Markets today'') (ascii ''May 01, 2025''))
                   generate_comprehensive_bullets
   \<and> length (format_content_refined (re_sub_python no_match) ascii_lower
                (ascii ''Bitcoin rose sharply today.'') (ascii ''May 01, 2025'')) \<le> 800"
proof -
  let ?long = "formatted_header (replicate 900 65) (ascii ''May 01, 2025'')"
  let ?short = "formatted_header (ascii ''Markets today'') (ascii ''May 01, 2025'')"
  have "800 < length (concat ?long)"
    by (simp add: formatted_header_def)
  then have over: "800 < length (enforce_budget ?long generate_comprehensive_bullets)"
    using enforce_budget_covers_header [of ?long generate_comprehensive_bullets] by linarith
  have "length (assemble ?short generate_comprehensive_bullets) \<le> 800"
    by (simp add: assemble_length formatted_header_def generate_comprehensive_bullets_def
          hashtags_line_def ascii_def)
  then have under: "length (enforce_budget ?short generate_comprehensive_bullets) \<le> 800"
    by (simp add: enforce_budget_def Let_def max_len_def)
  from formatted_text_at_most_800
         [of "re_sub_python no_match" ascii_lower "ascii ''Bitcoin rose sharply today.''"
             "ascii ''May 01, 2025''" "\<lambda>text. Inr 0" "\<lambda>url. Inr 200"
             ?long generate_comprehensive_bullets]
       formatted_text_at_most_800
         [of "re_sub_python no_match" ascii_lower "ascii ''Bitcoin rose sharply today.''"
             "ascii ''May 01, 2025''" "\<lambda>text. Inr 0" "\<lambda>url. Inr 200"
             ?short generate_comprehensive_bullets]
       over under
  show ?thesis by blast
qed

section \<open>The cleanup as the source writes it\<close>

text \<open>
  The second pattern of the cleanup, \<open>**(.*?)**\<close>, begins with a repetition operator,
  so \<open>re.sub\<close> raises \<open>re.error\<close> before it looks at the subject: the cleanup returns
  no text for any input. Whatever \<open>re.sub\<close> does, \<open>split("")\<close> then raises
  \<open>ValueError\<close>, so the body of \<open>_format_content_refined\<close> always ends in its handler.
\<close>

lemma cleanup_raises: "\<exists>e. cleanup (re_sub_python matcher) content = Inl e"
proof (cases "re_sub_python matcher (ascii ''[d+]'') [] content")
  case (Inl e)
  then show ?thesis by (simp add: cleanup_def try_bind_def)
next
  case (Inr c)
  have "re_sub_python matcher (ascii ''**(.*?)**'') repl c = Inl ReError" for repl
    by (simp add: re_sub_python_def nothing_to_repeat_def ascii_def)
  with Inr show ?thesis by (simp add: cleanup_def try_bind_def)
qed

lemma format_body_raises: "\<exists>e. format_body sub lower content date = Inl e"
  by (cases "cleanup sub content") (simp_all add: format_body_def try_bind_def py_split_def)

lemma format_is_fallback: "format_content_refined sub lower content date = format_fallback date"
  using format_body_raises [of sub lower content date]
  by (auto simp: format_content_refined_def)

text \<open>
  Claim C5 says that the cleanup applied to its own output returns that output. The
  cleanup has no output: it raises on every input, here also on a text with a citation
  marker and bold markup, and the formatting of that text is the static text of the
  handler.
\<close>

theorem cleanup_raises_on_every_input:
  "(\<exists>e. cleanup (re_sub_python matcher) content = Inl e)
   \<and> cleanup (re_sub_python no_match) (ascii ''**Bitcoin** rose [1]'') = Inl ReError
   \<and> format_content_refined (re_sub_python no_match) lower (ascii ''**Bitcoin** rose [1]'') date
       = format_fallback date"
  using cleanup_raises [of matcher content]
  by (simp add: format_is_fallback)
     (simp add: cleanup_def try_bind_def re_sub_python_def nothing_to_repeat_def no_match_def
        ascii_def)

section \<open>Properties of the extraction\<close>

text \<open>
  With enough frames the search of the code returns what the search of the
  specification returns; and whatever it returns, if it returns, is that result.
\<close>

lemma json_depth_pos: "0 < json_depth j"
  by (cases j) simp_all

lemma items_enough_frames:
  assumes "\<And>x f. x \<in> set items \<Longrightarrow> json_depth x \<le> f
             \<Longrightarrow> find_content f x = Inr (depth_first_search x)"
    and "depth_items items \<le> frames"
  shows "find_in_items frames items = Inr (search_items items)"
  using assms
proof (induction items)
  case Nil
  then show ?case by simp
next
  case (Cons item rest)
  from Cons.prems have here: "find_content frames item = Inr (depth_first_search item)"
    by simp
  from Cons.prems have "find_in_items frames rest = Inr (search_items rest)"
    by (intro Cons.IH) simp_all
  with here show ?case
    by (cases "depth_first_search item") (simp_all add: truthy_def)
qed

lemma values_enough_frames:
  assumes "\<And>k x f. (k, x) \<in> set d \<Longrightarrow> json_depth x \<le> f
             \<Longrightarrow> find_content f x = Inr (depth_first_search x)"
    and "depth_values d \<le> frames"
  shows "find_in_values frames d = Inr (search_values d)"
  using assms
proof (induction d)
  case Nil
  then show ?case by simp
next
  case (Cons kv rest)
  obtain key val where kv: "kv = (key, val)" by (cases kv)
  from Cons.prems(2) kv have fit: "json_depth val \<le> frames" "depth_values rest \<le> frames"
    by simp_all
  have here: "find_content frames val = Inr (depth_first_search val)"
    by (rule Cons.prems(1) [of key val frames]) (simp_all add: kv fit)
  have "find_in_values frames rest = Inr (search_values rest)"
  proof (rule Cons.IH)
    show "find_content f x = Inr (depth_first_search x)"
      if "(k, x) \<in> set rest" "json_depth x \<le> f" for k x f
      using that by (intro Cons.prems(1) [of k x f]) simp_all
    show "depth_values rest \<le> frames" by (rule fit)
  qed
  with here kv show ?case
    by (cases "depth_first_search val") (simp_all add: truthy_def)
qed


lemma find_enough_frames:
  "json_depth data \<le> frames \<Longrightarrow> find_content frames data = Inr (depth_first_search data)"
proof (induction data arbitrary: frames)
  case (JArr items)
  then obtain f where f: "frames = Suc f" "depth_items items \<le> f"
    by (cases frames) simp_all
  have "find_in_items f items = Inr (search_items items)"
    using JArr.IH f(2) by (intro items_enough_frames) simp_all
  with f show ?case by simp
next
  case (JObj d)
  then obtain f where f: "frames = Suc f" "depth_values d \<le> f"
    by (cases frames) simp_all
  have vals: "find_in_values f d = Inr (search_values d)"
  proof (rule values_enough_frames)
    show "find_content g x = Inr (depth_first_search x)"
      if "(k, x) \<in> set d" "json_depth x \<le> g" for k x g
      using that JObj.IH [of "(k, x)" x g] by simp
    show "depth_values d \<le> f" by (rule f(2))
  qed
  show ?case
  proof (cases "map_of d (ascii ''content'')")
    case None
    with f vals show ?thesis by simp
  next
    case (Some v)
    with f vals show ?thesis by (cases v) simp_all
  qed
qed (case_tac frames; simp)+

lemma items_returns_search:
  assumes "\<And>x f r. x \<in> set items \<Longrightarrow> find_content f x = Inr r \<Longrightarrow> r = depth_first_search x"
    and "find_in_items frames items = Inr r"
  shows "r = search_items items"
  using assms
proof (induction items)
  case Nil
  then show ?case by simp
next
  case (Cons item rest)
  show ?case
  proof (cases "find_content frames item")
    case (Inl e)
    with Cons.prems(2) show ?thesis by simp
  next
    case (Inr here)
    then have here: "here = depth_first_search item"
      by (intro Cons.prems(1) [of item frames here]) simp_all
    show ?thesis
    proof (cases "truthy here")
      case True
      with Inr Cons.prems(2) have "r = here"
        by (cases here) (simp_all add: truthy_def)
      with True here show ?thesis by simp
    next
      case False
      with Inr Cons.prems(2) have rest: "find_in_items frames rest = Inr r"
        by (cases here) (simp_all add: truthy_def)
      have "r = search_items rest"
      proof (rule Cons.IH)
        show "q = depth_first_search x" if "x \<in> set rest" "find_content f x = Inr q" for x f q
          using that by (intro Cons.prems(1) [of x f q]) simp_all
        show "find_in_items frames rest = Inr r" by (rule rest)
      qed
      with False here show ?thesis by simp
    qed
  qed
qed

lemma values_returns_search:
  assumes "\<And>k x f r. (k, x) \<in> set d \<Longrightarrow> find_content f x = Inr r \<Longrightarrow> r = depth_first_search x"
    and "find_in_values frames d = Inr r"
  shows "r = search_values d"
  using assms
proof (induction d)
  case Nil
  then show ?case by simp
next
  case (Cons kv rest)
  obtain key val where kv: "kv = (key, val)" by (cases kv)
  show ?case
  proof (cases "find_content frames val")
    case (Inl e)
    with Cons.prems(2) kv show ?thesis by simp
  next
    case (Inr here)
    then have here: "here = depth_first_search val"
      by (intro Cons.prems(1) [of key val frames here]) (simp_all add: kv)
    show ?thesis
    proof (cases "truthy here")
      case True
      with Inr Cons.prems(2) kv have "r = here"
        by (cases here) (simp_all add: truthy_def)
      with True here kv show ?thesis by simp
    next
      case False
      with Inr Cons.prems(2) kv have rest: "find_in_values frames rest = Inr r"
        by (cases here) (simp_all add: truthy_def)
      have "r = search_values rest"
      proof (rule Cons.IH)
        show "q = depth_first_search x"
          if "(k, x) \<in> set rest" "find_content f x = Inr q" for k x f q
          using that by (intro Cons.prems(1) [of k x f q]) simp_all
        show "find_in_values frames rest = Inr r" by (rule rest)
      qed
      with False here kv show ?thesis by simp
    qed
  qed
qed

lemma find_returns_search:
  "find_content frames data = Inr r \<Longrightarrow> r = depth_first_search data"
proof (induction data arbitrary: frames r)
  case (JArr items)
  then obtain f where f: "frames = Suc f" "find_in_items f items = Inr r"
    by (cases frames) simp_all
  have "r = search_items items"
    using JArr.IH f(2) by (intro items_returns_search [of items f r]) simp_all
  then show ?case by simp
next
  case (JObj d)
  then obtain f where f: "frames = Suc f"
    by (cases frames) simp_all
  have vals: "r = search_values d" if "find_in_values f d = Inr r"
  proof (rule values_returns_search)
    show "q = depth_first_search x" if "(k, x) \<in> set d" "find_content g x = Inr q" for k x g q
      using that JObj.IH [of "(k, x)" x g q] by simp
    show "find_in_values f d = Inr r" by (rule that)
  qed
  show ?case
  proof (cases "map_of d (ascii ''content'')")
    case None
    with f vals JObj.prems show ?thesis by simp
  next
    case (Some v)
    with f vals JObj.prems show ?thesis by (cases v) auto
  qed
qed (case_tac frames; auto)+

lemma search_items_first: "search_items items = first_match (map depth_first_search items)"
  by (induction items) (simp_all add: first_match_def)

lemma search_values_first: "search_values d = first_match (map (depth_first_search \<circ> snd) d)"
proof (induction d)
  case Nil
  then show ?case by (simp add: first_match_def)
next
  case (Cons kv rest)
  then show ?case by (cases kv) (simp add: first_match_def)
qed

lemma py_strip_Nil: "py_strip [] = []"
  by (simp add: py_strip_def lstrip_chars_def rstrip_chars_def)

lemma find_nested_raises:
  "frames \<le> n \<Longrightarrow> find_content frames (nested_lists n j) = Inl RecursionError"
proof (induction n arbitrary: frames)
  case 0
  then show ?case by simp
next
  case (Suc n)
  show ?case
  proof (cases frames)
    case 0
    then show ?thesis by simp
  next
    case (Suc f)
    with Suc.prems have "f \<le> n" by simp
    from Suc.IH [OF this] Suc show ?thesis by simp
  qed
qed

lemma search_nested:
  "truthy (depth_first_search j) \<Longrightarrow> depth_first_search (nested_lists n j) = depth_first_search j"
  by (induction n) simp_all

lemma standard_nested: "0 < n \<Longrightarrow> standard_content (nested_lists n j) = None"
  by (cases n) (simp_all add: standard_content_def)

text \<open>
  Claim C6, as stated, speaks of every nested envelope. A string of 51 characters
  under 1000 nested one-element lists is the first match of the depth-first search,
  but with 1000 calls left the search of the code runs out of frames on its way down:
  \<open>RecursionError\<close> is raised, the handler of the method catches it, and the extraction
  returns the empty string.
\<close>

theorem deep_envelope_counterexample:
  "depth_first_search (nested_lists 1000 (JStr (replicate 51 120))) = Some (replicate 51 120)
   \<and> find_content 1000 (nested_lists 1000 (JStr (replicate 51 120))) = Inl RecursionError
   \<and> extract_content_simple 1000 (nested_lists 1000 (JStr (replicate 51 120))) = []"
proof -
  have long: "depth_first_search (JStr (replicate 51 120)) = Some (replicate 51 120)"
    by simp
  then have t: "truthy (depth_first_search (JStr (replicate 51 120)))"
    by (simp add: truthy_def)
  have a: "depth_first_search (nested_lists 1000 (JStr (replicate 51 120))) = Some (replicate 51 120)"
    unfolding search_nested [OF t] by (rule long)
  have b: "find_content 1000 (nested_lists 1000 (JStr (replicate 51 120))) = Inl RecursionError"
    by (rule find_nested_raises) (rule order_refl)
  have c: "standard_content (nested_lists 1000 (JStr (replicate 51 120))) = None"
    by (rule standard_nested) simp
  show ?thesis
    unfolding extract_content_simple_def a b c by simp
qed

text \<open>
  Claim C6, amended. For every envelope whose depth is at most the number of nested
  calls that the recursion limit still allows, \<open>find_content\<close> returns the result of
  the depth-first search, and whenever it returns at all it returns that result. The
  search accepts a string longer than 50 characters; a mapping with a string under the
  key \<open>content\<close> gives that string as it is, before any of its values is visited; any
  other mapping gives the first match among the searches of its values, in their order,
  and a sequence the first match among the searches of its elements, in their order. On
  the fallback path the extraction returns the stripped result of \<open>find_content\<close>, and
  the empty string when nothing was found or the search raised.
\<close>

theorem find_content_depth_first:
  "(json_depth data \<le> frames \<longrightarrow> find_content frames data = Inr (depth_first_search data))
   \<and> (find_content frames data = Inr r \<longrightarrow> r = depth_first_search data)
   \<and> depth_first_search (JStr s) = (if 50 < length s then Some s else None)
   \<and> (map_of d (ascii ''content'') = Some (JStr s) \<longrightarrow> depth_first_search (JObj d) = Some s)
   \<and> ((\<forall>t. map_of d (ascii ''content'') \<noteq> Some (JStr t))
        \<longrightarrow> depth_first_search (JObj d) = first_match (map (depth_first_search \<circ> snd) d))
   \<and> depth_first_search (JArr items) = first_match (map depth_first_search items)
   \<and> (standard_content data = None
        \<longrightarrow> extract_content_simple frames data
            = (case find_content frames data of
                 Inl e \<Rightarrow> []
               | Inr None \<Rightarrow> []
               | Inr (Some found) \<Rightarrow> py_strip found))"
proof (intro conjI impI)
  show "find_content frames data = Inr (depth_first_search data)" if "json_depth data \<le> frames"
    using that by (rule find_enough_frames)
  show "r = depth_first_search data" if "find_content frames data = Inr r"
    using that by (rule find_returns_search)
  show "depth_first_search (JStr s) = (if 50 < length s then Some s else None)" by simp
  show "depth_first_search (JObj d) = Some s" if "map_of d (ascii ''content'') = Some (JStr s)"
    using that by simp
  show "depth_first_search (JObj d) = first_match (map (depth_first_search \<circ> snd) d)"
    if no: "\<forall>t. map_of d (ascii ''content'') \<noteq> Some (JStr t)"
  proof (cases "map_of d (ascii ''content'')")
    case None
    then show ?thesis by (simp add: search_values_first)
  next
    case (Some v)
    with no show ?thesis by (cases v) (simp_all add: search_values_first)
  qed
  show "depth_first_search (JArr items) = first_match (map depth_first_search items)"
    by (simp add: search_items_first)
  show "extract_content_simple frames data
            = (case find_content frames data of
                 Inl e \<Rightarrow> []
               | Inr None \<Rightarrow> []
               | Inr (Some found) \<Rightarrow> py_strip found)"
    if "standard_content data = None"
  proof (cases "find_content frames data")
    case (Inl e)
    with that show ?thesis by (simp add: extract_content_simple_def)
  next
    case (Inr found)
    with that show ?thesis
      by (cases found) (simp_all add: extract_content_simple_def py_strip_Nil)
  qed
qed


theorem find_content_depth_first_witness:
  "json_depth
     (JObj [(ascii ''id'', JStr (ascii ''r1'')),
            (ascii ''output'', JArr [JNum 1, JObj [(ascii ''meta'', JStr []),
                                                   (ascii ''content'', JStr (ascii '' Hello ''))]]),
            (ascii ''note'', JStr (replicate 51 120))]) \<le> 1000
   \<and> standard_content
     (JObj [(ascii ''id'', JStr (ascii ''r1'')),
            (ascii ''output'', JArr [JNum 1, JObj [(ascii ''meta'', JStr []),
                                                   (ascii ''content'', JStr (ascii '' Hello ''))]]),
            (ascii ''note'', JStr (replicate 51 120))]) = None
   \<and> find_content 1000
     (JObj [(ascii ''id'', JStr (ascii ''r1'')),
            (ascii ''output'', JArr [JNum 1, JObj [(ascii ''meta'', JStr []),
                                                   (ascii ''content'', JStr (ascii '' Hello ''))]]),
            (ascii ''note'', JStr (replicate 51 120))]) = Inr (Some (ascii '' Hello ''))
   \<and> extract_content_simple 1000
     (JObj [(ascii ''id'', JStr (ascii ''r1'')),
            (ascii ''output'', JArr [JNum 1, JObj [(ascii ''meta'', JStr []),
                                                   (ascii ''content'', JStr (ascii '' Hello ''))]]),
            (ascii ''note'', JStr (replicate 51 120))]) = ascii ''Hello''"
proof -
  let ?inner = "[(ascii ''meta'', JStr []), (ascii ''content'', JStr (ascii '' Hello ''))]"
  let ?top = "[(ascii ''id'', JStr (ascii ''r1'')),
            (ascii ''output'', JArr [JNum 1, JObj ?inner]),
            (ascii ''note'', JStr (replicate 51 120))]"
  have depth: "json_depth (JObj ?top) \<le> 1000"
    by simp
  have std: "standard_content (JObj ?top) = None"
    by (simp add: standard_content_def ascii_def)
  have inner: "map_of ?inner (ascii ''content'') = Some (JStr (ascii '' Hello ''))"
    by (simp add: ascii_def)
  have top: "\<forall>t. map_of ?top (ascii ''content'') \<noteq> Some (JStr t)"
    by (simp add: ascii_def)
  have strip: "py_strip (ascii '' Hello '') = ascii ''Hello''"
    by (simp add: eval_strings)
  from find_content_depth_first [where d = ?inner and s = "ascii '' Hello ''"] inner
  have i1: "depth_first_search (JObj ?inner) = Some (ascii '' Hello '')"
    by blast
  from find_content_depth_first
         [where data = "JObj ?top" and frames = 1000 and d = ?top
            and items = "[JNum 1, JObj ?inner]"]
       top std depth
  have t0: "find_content 1000 (JObj ?top) = Inr (depth_first_search (JObj ?top))"
    and t1: "depth_first_search (JObj ?top) = first_match (map (depth_first_search \<circ> snd) ?top)"
    and t2: "extract_content_simple 1000 (JObj ?top)
            = (case find_content 1000 (JObj ?top) of
                 Inl e \<Rightarrow> [] | Inr None \<Rightarrow> [] | Inr (Some found) \<Rightarrow> py_strip found)"
    and t4: "depth_first_search (JArr [JNum 1, JObj ?inner])
            = first_match (map depth_first_search [JNum 1, JObj ?inner])"
    by blast+
  have t3: "depth_first_search (JObj ?top) = Some (ascii '' Hello '')"
    unfolding t1 using i1 t4 by (simp add: first_match_def truthy_def ascii_def)
  from depth std t0 t2 t3 strip show ?thesis by simp
qed


lemma standard_content_envelope:
  "standard_content (well_formed_envelope x) = (if py_strip x \<noteq> [] then Some (py_strip x) else None)"
  by (simp add: standard_content_def well_formed_envelope_def)

text \<open>
  Claim C7. For every string \<open>X\<close> that is not blank after trimming, the extraction of
  \<open>{"choices": [{"message": {"content": X}}]}\<close> is the trimmed \<open>X\<close>, whatever room
  the stack has.
\<close>

theorem extraction_of_well_formed_envelope:
  "py_strip x \<noteq> [] \<Longrightarrow> extract_content_simple frames (well_formed_envelope x) = py_strip x"
  by (simp add: extract_content_simple_def standard_content_envelope)

theorem extraction_of_well_formed_envelope_witness:
  "py_strip (ascii ''  Bitcoin rose today. '') \<noteq> []
   \<and> extract_content_simple 0 (well_formed_envelope (ascii ''  Bitcoin rose today. ''))
       = ascii ''Bitcoin rose today.''
   \<and> extract_content_simple 1000 (well_formed_envelope (ascii ''  Bitcoin rose today. ''))
       = ascii ''Bitcoin rose today.''"
proof -
  have s: "py_strip (ascii ''  Bitcoin rose today. '') = ascii ''Bitcoin rose today.''"
    by (simp add: eval_strings)
  then have ne: "py_strip (ascii ''  Bitcoin rose today. '') \<noteq> []"
    by (simp add: ascii_def)
  from extraction_of_well_formed_envelope [OF ne, of 0]
       extraction_of_well_formed_envelope [OF ne, of 1000] s ne
  show ?thesis by simp
qed

section \<open>Properties of the public operation\<close>




lemma run_get_crypto_news_content_outcomes:
  "(http_post w = Inl e
      \<longrightarrow> run_get_crypto_news_content w
          = Inr (create_refined_fallback_content (md5_digest w) (http_head w) (today_handler w)))
   \<and> (http_post w = Inr resp
        \<and> (status_code resp \<noteq> 200 \<or> json_body resp = Inl e'
           \<or> (\<exists>data. json_body resp = Inr data
                 \<and> extract_content_simple (stack_room w) data = []))
        \<longrightarrow> run_get_crypto_news_content w
            = Inr (create_refined_fallback_content (md5_digest w) (http_head w) (today_body w)))"
  by (auto simp: run_get_crypto_news_content_def news_body_def try_bind_def Let_def
        split: sum.splits)



end
